theory Spec2Isabelle
  imports Main "HOL-Library.Multiset"
begin

section \<open>Conversation summaries\<close>

text \<open>
  The chat document as the three fixes of the report use it. Dates are milliseconds since
  the epoch; a Date field that was never written is \<open>None\<close>. The field \<open>chat_id\<close> is the
  document's \<^verbatim>\<open>_id\<close> (an identifier cannot start with an underscore here), ordered as
  the store orders it.
\<close>

record chat =
  chat_id :: nat
  name :: string
  lastMessage :: "nat option"
  lastMessageText :: "string option"
  lastMessageTimestamp :: "int option"
  lastMessageSender :: "nat option"
  lastMessageType :: "string option"
  updatedAt :: "int option"

text \<open>The persisted message: only its creation instant is read by the update.\<close>

record message =
  createdAt :: int

subsection \<open>Fix 1: the update on a new message (conversationService.ts)\<close>

text \<open>
  The collection is the list of its documents. \<^verbatim>\<open>findByIdAndUpdate(id, update, {new: true})\<close>
  applies the update to the document with that \<^verbatim>\<open>_id\<close> and returns the document after the
  update; when no document has the id, nothing is written and the result is null.
\<close>

fun findById :: "chat list \<Rightarrow> nat \<Rightarrow> chat option" where
  "findById [] cid = None"
| "findById (c # cs) cid = (if chat_id c = cid then Some c else findById cs cid)"

fun findByIdAndUpdate :: "chat list \<Rightarrow> nat \<Rightarrow> (chat \<Rightarrow> chat) \<Rightarrow> chat list \<times> chat option" where
  "findByIdAndUpdate [] cid upd = ([], None)"
| "findByIdAndUpdate (c # cs) cid upd =
     (if chat_id c = cid then (upd c # cs, Some (upd c))
      else (case findByIdAndUpdate cs cid upd of (cs', r) \<Rightarrow> (c # cs', r)))"

text \<open>
  The AFTER snippet of Fix 1. \<open>messageId\<close>, \<open>previewText\<close>, \<open>senderId\<close> and
  \<open>messageType\<close> are the variables of the enclosing function the snippet reads.
\<close>

definition updateConversation ::
  "chat list \<Rightarrow> nat \<Rightarrow> message \<Rightarrow> nat \<Rightarrow> string \<Rightarrow> nat \<Rightarrow> string \<Rightarrow> chat list \<times> chat option" where
  "updateConversation store chatId msg messageId previewText senderId messageType =
     (let updateTimestamp = createdAt msg in
      findByIdAndUpdate store chatId (\<lambda>c. c\<lparr>
        lastMessage := Some messageId,
        lastMessageText := Some previewText,
        lastMessageTimestamp := Some updateTimestamp,
        lastMessageSender := Some senderId,
        lastMessageType := Some messageType,
        updatedAt := Some updateTimestamp\<rparr>))"

subsection \<open>Fix 2: the sort stage (chatRepo.ts, conversationService.ts)\<close>

text \<open>
  The store compares a missing or null field below every Date, so with direction \<open>-1\<close>
  documents without \<open>lastMessageTimestamp\<close> come last.
\<close>

fun date_less :: "int option \<Rightarrow> int option \<Rightarrow> bool" where
  "date_less None None = False"
| "date_less None (Some b) = True"
| "date_less (Some a) None = False"
| "date_less (Some a) (Some b) = (a < b)"

text \<open>
  \<open>sort_before a b\<close>: under \<^verbatim>\<open>{ lastMessageTimestamp: -1, _id: -1 }\<close> document \<open>a\<close> may
  stand before document \<open>b\<close>.
\<close>

definition sort_before :: "chat \<Rightarrow> chat \<Rightarrow> bool" where
  "sort_before a b =
     (date_less (lastMessageTimestamp b) (lastMessageTimestamp a) \<or>
      (lastMessageTimestamp a = lastMessageTimestamp b \<and> chat_id b \<le> chat_id a))"

fun sort_insert :: "chat \<Rightarrow> chat list \<Rightarrow> chat list" where
  "sort_insert a [] = [a]"
| "sort_insert a (b # bs) = (if sort_before a b then a # b # bs else b # sort_insert a bs)"

fun sort_stage :: "chat list \<Rightarrow> chat list" where
  "sort_stage [] = []"
| "sort_stage (c # cs) = sort_insert c (sort_stage cs)"

subsection \<open>Fix 3: the pre-save middleware (Chat.ts)\<close>

text \<open>
  A document in memory: its field values, the paths assigned since it was loaded, and
  whether it has never been saved. \<^verbatim>\<open>isModified()\<close> asks whether any path is modified,
  \<^verbatim>\<open>isModified(p)\<close> whether \<open>p\<close> is.
\<close>

datatype path =
  Name | LastMessage | LastMessageText | LastMessageTimestamp
  | LastMessageSender | LastMessageType | UpdatedAt

record document =
  doc :: chat
  modifiedPaths :: "path list"
  isNew :: bool

definition isModified :: "document \<Rightarrow> bool" where
  "isModified d = (modifiedPaths d \<noteq> [])"

definition isModifiedPath :: "document \<Rightarrow> path \<Rightarrow> bool" where
  "isModifiedPath d p = (p \<in> set (modifiedPaths d))"

text \<open>
  The AFTER hook of Fix 3; \<open>now\<close> is the value of \<^verbatim>\<open>new Date()\<close>. Assigning to
  \<^verbatim>\<open>this.updatedAt\<close> marks that path modified, which is how the save comes to write it.
\<close>

definition preSave :: "int \<Rightarrow> document \<Rightarrow> document" where
  "preSave now d =
     (if isModified d \<and> \<not> isNew d then
        (if \<not> isModifiedPath d LastMessageTimestamp then
           d\<lparr>doc := (doc d)\<lparr>updatedAt := Some now\<rparr>,
             modifiedPaths := UpdatedAt # modifiedPaths d\<rparr>
         else d)
      else d)"

text \<open>
  \<^verbatim>\<open>save()\<close>: the hook runs first; a new document is inserted, an existing one has its
  modified paths written to the stored document of the same \<^verbatim>\<open>_id\<close>. The collection's
  \<^verbatim>\<open>_id\<close> index is unique: an insert whose \<^verbatim>\<open>_id\<close> is already stored is refused and
  leaves the collection as it was.
\<close>

fun write_path :: "chat \<Rightarrow> path \<Rightarrow> chat \<Rightarrow> chat" where
  "write_path src Name c = c\<lparr>name := name src\<rparr>"
| "write_path src LastMessage c = c\<lparr>lastMessage := lastMessage src\<rparr>"
| "write_path src LastMessageText c = c\<lparr>lastMessageText := lastMessageText src\<rparr>"
| "write_path src LastMessageTimestamp c = c\<lparr>lastMessageTimestamp := lastMessageTimestamp src\<rparr>"
| "write_path src LastMessageSender c = c\<lparr>lastMessageSender := lastMessageSender src\<rparr>"
| "write_path src LastMessageType c = c\<lparr>lastMessageType := lastMessageType src\<rparr>"
| "write_path src UpdatedAt c = c\<lparr>updatedAt := updatedAt src\<rparr>"

definition write_paths :: "document \<Rightarrow> chat \<Rightarrow> chat" where
  "write_paths d c = fold (write_path (doc d)) (modifiedPaths d) c"

definition save :: "int \<Rightarrow> chat list \<Rightarrow> document \<Rightarrow> chat list" where
  "save now store d =
     (let d' = preSave now d in
      if isNew d' then
        (case findById store (chat_id (doc d')) of
           None \<Rightarrow> store @ [doc d']
         | Some c \<Rightarrow> store)
      else fst (findByIdAndUpdate store (chat_id (doc d')) (write_paths d')))"

subsection \<open>Sequences of message events\<close>

text \<open>
  A message event carries the message and the four values the update writes beside its
  instant. \<open>observed\<close> lists the states of the collection a reader can see while the events
  are applied one after the other: the state before, then the state after each update.
\<close>

type_synonym event = "message \<times> nat \<times> string \<times> nat \<times> string"

fun applyEvent :: "chat list \<Rightarrow> nat \<Rightarrow> event \<Rightarrow> chat list" where
  "applyEvent store chatId (msg, messageId, previewText, senderId, messageType) =
     fst (updateConversation store chatId msg messageId previewText senderId messageType)"

fun observed :: "chat list \<Rightarrow> nat \<Rightarrow> event list \<Rightarrow> chat list list" where
  "observed store chatId [] = [store]"
| "observed store chatId (e # es) = store # observed (applyEvent store chatId e) chatId es"

definition storedTimestamp :: "chat list \<Rightarrow> nat \<Rightarrow> int option" where
  "storedTimestamp store chatId =
     (case findById store chatId of None \<Rightarrow> None | Some c \<Rightarrow> lastMessageTimestamp c)"

subsection \<open>Vocabulary of the properties\<close>

text \<open>\<open>b\<close> is \<open>a\<close> with some other value of \<open>updatedAt\<close>, and nothing else changed.\<close>

definition sameExceptUpdatedAt :: "chat \<Rightarrow> chat \<Rightarrow> bool" where
  "sameExceptUpdatedAt a b = (b = a\<lparr>updatedAt := updatedAt b\<rparr>)"


text \<open>Three summaries: A and C share their last instant, B has no message yet.\<close>

definition chatA :: chat where
  "chatA = \<lparr>chat_id = 1, name = ''A'', lastMessage = Some 7, lastMessageText = Some ''hi'',
            lastMessageTimestamp = Some 100, lastMessageSender = Some 3,
            lastMessageType = Some ''text'', updatedAt = Some 100\<rparr>"

definition chatB :: chat where
  "chatB = \<lparr>chat_id = 2, name = ''B'', lastMessage = None, lastMessageText = None,
            lastMessageTimestamp = None, lastMessageSender = None,
            lastMessageType = None, updatedAt = Some 500\<rparr>"

definition chatC :: chat where
  "chatC = \<lparr>chat_id = 3, name = ''C'', lastMessage = Some 9, lastMessageText = Some ''yo'',
            lastMessageTimestamp = Some 100, lastMessageSender = Some 4,
            lastMessageType = Some ''text'', updatedAt = Some 100\<rparr>"

text \<open>
  Two message events for conversation A, one older and one newer than its stored instant.
\<close>

definition staleEvent :: event where
  "staleEvent = (\<lparr>createdAt = 50\<rparr>, 11, ''old'', 5, ''text'')"

definition freshEvent :: event where
  "freshEvent = (\<lparr>createdAt = 250\<rparr>, 12, ''new'', 5, ''text'')"

text \<open>
  Three documents about to be saved: a rename of A, a save of A that also assigns
  \<open>lastMessageTimestamp\<close>, and the first save of B.
\<close>

definition renameDoc :: document where
  "renameDoc = \<lparr>doc = chatA\<lparr>name := ''A2''\<rparr>, modifiedPaths = [Name], isNew = False\<rparr>"

definition messageDoc :: document where
  "messageDoc = \<lparr>doc = chatA\<lparr>name := ''A2'', lastMessageTimestamp := Some 300, updatedAt := Some 300\<rparr>,
                  modifiedPaths = [Name, LastMessageTimestamp, UpdatedAt], isNew = False\<rparr>"

definition createdDoc :: document where
  "createdDoc = \<lparr>doc = chatB, modifiedPaths = [Name], isNew = True\<rparr>"

section \<open>Facts about the update\<close>

lemma findById_chat_id: "findById store cid = Some c \<Longrightarrow> chat_id c = cid"
  by (induction store) (simp_all split: if_splits)

lemma snd_findByIdAndUpdate:
  "snd (findByIdAndUpdate store cid upd) = map_option upd (findById store cid)"
  by (induction store) (simp_all add: case_prod_beta)

lemma findById_findByIdAndUpdate:
  assumes "\<And>c. chat_id (upd c) = chat_id c"
  shows "findById (fst (findByIdAndUpdate store cid upd)) k =
         (if k = cid then map_option upd (findById store k) else findById store k)"
  using assms by (induction store) (auto simp: case_prod_beta)

lemma findByIdAndUpdate_missing:
  "findById store cid = None \<Longrightarrow> findByIdAndUpdate store cid upd = (store, None)"
  by (induction store) (simp_all add: case_prod_beta split: if_splits)

text \<open>
  C1. When the conversation exists, the update on a new message leaves the stored summary,
  and the document it returns, with \<open>lastMessageTimestamp\<close> and \<open>updatedAt\<close> both equal to
  the one instant \<open>message.createdAt\<close>; no clock is read.
\<close>

theorem update_timestamps_coherent:
  assumes "findById store chatId = Some c"
  shows "\<exists>c'. findById (fst (updateConversation store chatId msg mid txt sid ty)) chatId = Some c'
           \<and> snd (updateConversation store chatId msg mid txt sid ty) = Some c'
           \<and> lastMessageTimestamp c' = Some (createdAt msg)
           \<and> updatedAt c' = Some (createdAt msg)
           \<and> lastMessageTimestamp c' = updatedAt c'"
  using assms
  by (simp add: updateConversation_def Let_def snd_findByIdAndUpdate findById_findByIdAndUpdate)

theorem update_timestamps_coherent_witness:
  "findById [chatA, chatB] 2 = Some chatB \<and>
   (\<exists>c'. findById (fst (updateConversation [chatA, chatB] 2 \<lparr>createdAt = 250\<rparr> 11 ''hey'' 5 ''text'')) 2
            = Some c' \<and>
         lastMessageTimestamp c' = Some 250 \<and> updatedAt c' = Some 250)"
proof -
  have h: "findById [chatA, chatB] 2 = Some chatB"
    by (simp add: chatA_def chatB_def)
  from update_timestamps_coherent [OF h, of "\<lparr>createdAt = 250\<rparr>" 11 "''hey''" 5 "''text''"] h
  show ?thesis by auto
qed

section \<open>Facts about the sort stage\<close>

lemma date_less_irrefl: "\<not> date_less a a"
  by (cases a) simp_all

lemma date_less_trans: "date_less a b \<Longrightarrow> date_less b c \<Longrightarrow> date_less a c"
  by (cases a; cases b; cases c) simp_all

lemma date_less_linear: "date_less a b \<or> a = b \<or> date_less b a"
  by (cases a; cases b) auto

lemma date_less_asym: "date_less a b \<Longrightarrow> \<not> date_less b a"
  by (cases a; cases b) simp_all

lemma sort_before_total: "sort_before a b \<or> sort_before b a"
  using date_less_linear [of "lastMessageTimestamp a" "lastMessageTimestamp b"]
  by (auto simp: sort_before_def)

lemma sort_before_trans: "sort_before a b \<Longrightarrow> sort_before b c \<Longrightarrow> sort_before a c"
  unfolding sort_before_def
  by (metis date_less_trans order_trans)

lemma sort_before_antisym:
  "sort_before a b \<Longrightarrow> sort_before b a \<Longrightarrow>
   lastMessageTimestamp a = lastMessageTimestamp b \<and> chat_id a = chat_id b"
  unfolding sort_before_def
  by (metis date_less_asym date_less_irrefl order_antisym)

lemma mset_sort_insert: "mset (sort_insert a xs) = add_mset a (mset xs)"
  by (induction xs) simp_all

lemma mset_sort_stage: "mset (sort_stage xs) = mset xs"
  by (induction xs) (simp_all add: mset_sort_insert)

lemma set_sort_insert: "set (sort_insert a xs) = insert a (set xs)"
  by (induction xs) auto

lemma sorted_sort_insert:
  "sorted_wrt sort_before xs \<Longrightarrow> sorted_wrt sort_before (sort_insert a xs)"
proof (induction xs)
  case Nil
  then show ?case by simp
next
  case (Cons b bs)
  show ?case
  proof (cases "sort_before a b")
    case True
    with Cons.prems show ?thesis
      by (auto intro: sort_before_trans)
  next
    case False
    then have "sort_before b a"
      using sort_before_total by blast
    with False Cons show ?thesis
      by (auto simp: set_sort_insert)
  qed
qed

lemma sorted_sort_stage: "sorted_wrt sort_before (sort_stage xs)"
  by (induction xs) (simp_all add: sorted_sort_insert)

lemma sorted_perm_unique:
  assumes "sorted_wrt sort_before xs" "sorted_wrt sort_before ys"
    and "mset xs = mset ys" and "distinct (map chat_id xs)"
  shows "xs = ys"
  using assms
proof (induction xs arbitrary: ys)
  case Nil
  then show ?case by simp
next
  case (Cons x xs)
  then obtain y ys' where ys: "ys = y # ys'"
    by (cases ys) auto
  have inj: "inj_on chat_id (set (x # xs))"
    using Cons.prems(4) by (simp only: distinct_map)
  have sets: "set (x # xs) = set ys"
    using Cons.prems(3) by (metis set_mset_mset)
  have "x = y"
  proof (rule ccontr)
    assume neq: "x \<noteq> y"
    with sets ys have "x \<in> set ys'" "y \<in> set xs"
      by auto
    with Cons.prems(1,2) ys have "sort_before y x" "sort_before x y"
      by auto
    then have "chat_id x = chat_id y"
      using sort_before_antisym by blast
    with inj sets ys have "x = y"
      by (auto dest: inj_onD)
    with neq show False by simp
  qed
  with Cons.prems ys have "xs = ys'"
    by (intro Cons.IH) auto
  with \<open>x = y\<close> ys show ?case by simp
qed

lemma sort_stage_perm:
  assumes "distinct (map chat_id xs)" "mset ys = mset xs"
  shows "sort_stage ys = sort_stage xs"
proof -
  have "mset (map chat_id (sort_stage ys)) = mset (map chat_id ys)"
    by (simp add: mset_sort_stage)
  also have "\<dots> = mset (map chat_id xs)"
    using assms(2) by simp
  finally have "distinct (map chat_id (sort_stage ys))"
    using assms(1) by (metis mset_eq_imp_distinct_iff)
  then show ?thesis
    using assms(2)
    by (intro sorted_perm_unique) (simp_all add: sorted_sort_stage mset_sort_stage)
qed

lemma sort_insert_rel:
  assumes R: "\<And>a b a' b'. R a b \<Longrightarrow> R a' b' \<Longrightarrow> sort_before a a' = sort_before b b'"
  shows "list_all2 R xs ys \<Longrightarrow> R a b \<Longrightarrow> list_all2 R (sort_insert a xs) (sort_insert b ys)"
proof (induction xs ys rule: list_all2_induct)
  case Nil
  then show ?case by simp
next
  case (Cons x xs y ys)
  from R [OF Cons.prems Cons.hyps(1)] Cons show ?case
    by simp
qed

lemma sort_stage_rel:
  assumes R: "\<And>a b a' b'. R a b \<Longrightarrow> R a' b' \<Longrightarrow> sort_before a a' = sort_before b b'"
  shows "list_all2 R xs ys \<Longrightarrow> list_all2 R (sort_stage xs) (sort_stage ys)"
proof (induction xs ys rule: list_all2_induct)
  case Nil
  then show ?case by simp
next
  case (Cons x xs y ys)
  then show ?case
    by (simp add: sort_insert_rel [of R, OF R])
qed

lemma sameExceptUpdatedAt_keys:
  "sameExceptUpdatedAt a b \<Longrightarrow>
   lastMessageTimestamp b = lastMessageTimestamp a \<and> chat_id b = chat_id a"
  by (cases a; cases b) (simp add: sameExceptUpdatedAt_def)

lemma sameExceptUpdatedAt_sort_before:
  "sameExceptUpdatedAt a b \<Longrightarrow> sameExceptUpdatedAt a' b' \<Longrightarrow>
   sort_before a a' = sort_before b b'"
  by (simp add: sort_before_def sameExceptUpdatedAt_keys)

lemma list_all2_map_eq:
  "list_all2 R xs ys \<Longrightarrow> (\<And>a b. R a b \<Longrightarrow> f a = f b) \<Longrightarrow> map f xs = map f ys"
  by (induction xs ys rule: list_all2_induct) simp_all

text \<open>
  C3. The sort stage returns its input rearranged so that every document stands before
  the ones that follow it under the key (\<open>lastMessageTimestamp\<close> descending, \<^verbatim>\<open>_id\<close>
  descending), and \<open>updatedAt\<close> has no part in it: two inputs that differ only in their
  \<open>updatedAt\<close> values are rearranged the same way, position by position.
\<close>

theorem sort_ignores_updatedAt:
  "sorted_wrt sort_before (sort_stage xs) \<and> mset (sort_stage xs) = mset xs \<and>
   (list_all2 sameExceptUpdatedAt xs ys \<longrightarrow>
      list_all2 sameExceptUpdatedAt (sort_stage xs) (sort_stage ys) \<and>
      map chat_id (sort_stage ys) = map chat_id (sort_stage xs))"
proof (intro conjI impI)
  show "sorted_wrt sort_before (sort_stage xs)"
    by (rule sorted_sort_stage)
  show "mset (sort_stage xs) = mset xs"
    by (rule mset_sort_stage)
  assume "list_all2 sameExceptUpdatedAt xs ys"
  show rel: "list_all2 sameExceptUpdatedAt (sort_stage xs) (sort_stage ys)"
  proof (rule sort_stage_rel [where R = sameExceptUpdatedAt])
    show "sort_before a a' = sort_before b b'"
      if "sameExceptUpdatedAt a b" "sameExceptUpdatedAt a' b'" for a b a' b'
      using that by (rule sameExceptUpdatedAt_sort_before)
    show "list_all2 sameExceptUpdatedAt xs ys" by fact
  qed
  show "map chat_id (sort_stage ys) = map chat_id (sort_stage xs)"
    using list_all2_map_eq [OF rel, of chat_id] by (simp add: sameExceptUpdatedAt_keys)
qed

theorem sort_ignores_updatedAt_witness:
  "list_all2 sameExceptUpdatedAt [chatA, chatB, chatC]
     [chatA\<lparr>updatedAt := Some 900\<rparr>, chatB\<lparr>updatedAt := None\<rparr>, chatC\<lparr>updatedAt := Some 1\<rparr>] \<and>
   map chat_id (sort_stage [chatA\<lparr>updatedAt := Some 900\<rparr>, chatB\<lparr>updatedAt := None\<rparr>,
     chatC\<lparr>updatedAt := Some 1\<rparr>]) = [3, 1, 2] \<and>
   map chat_id (sort_stage [chatA, chatB, chatC]) = [3, 1, 2]"
proof -
  have h: "list_all2 sameExceptUpdatedAt [chatA, chatB, chatC]
     [chatA\<lparr>updatedAt := Some 900\<rparr>, chatB\<lparr>updatedAt := None\<rparr>, chatC\<lparr>updatedAt := Some 1\<rparr>]"
    by (simp add: sameExceptUpdatedAt_def)
  have e: "map chat_id (sort_stage [chatA, chatB, chatC]) = [3, 1, 2]"
    by (simp add: chatA_def chatB_def chatC_def sort_before_def)
  from sort_ignores_updatedAt [of "[chatA, chatB, chatC]"
      "[chatA\<lparr>updatedAt := Some 900\<rparr>, chatB\<lparr>updatedAt := None\<rparr>, chatC\<lparr>updatedAt := Some 1\<rparr>]"] h e
  show ?thesis by simp
qed

text \<open>
  C5. On a snapshot whose documents have distinct \<^verbatim>\<open>_id\<close>s, with any number of equal
  \<open>lastMessageTimestamp\<close> values, the listing does not depend on the order in which the
  documents are read, and it is the only arrangement of the snapshot that respects the
  sort key: no tie is left open.
\<close>

theorem ordering_deterministic:
  assumes "distinct (map chat_id xs)" and "mset ys = mset xs"
  shows "sort_stage ys = sort_stage xs \<and> (sorted_wrt sort_before ys \<longrightarrow> ys = sort_stage xs)"
proof
  show "sort_stage ys = sort_stage xs"
    using assms by (rule sort_stage_perm)
  show "sorted_wrt sort_before ys \<longrightarrow> ys = sort_stage xs"
  proof
    assume s: "sorted_wrt sort_before ys"
    have "mset (map chat_id ys) = mset (map chat_id xs)"
      using assms(2) by simp
    then have "distinct (map chat_id ys)"
      using assms(1) by (metis mset_eq_imp_distinct_iff)
    with s assms(2) show "ys = sort_stage xs"
      by (intro sorted_perm_unique) (simp_all add: sorted_sort_stage mset_sort_stage)
  qed
qed

theorem ordering_deterministic_witness:
  "distinct (map chat_id [chatA, chatB, chatC]) \<and>
   mset [chatC, chatB, chatA] = mset [chatA, chatB, chatC] \<and>
   sort_stage [chatC, chatB, chatA] = sort_stage [chatA, chatB, chatC] \<and>
   sort_stage [chatA, chatB, chatC] = [chatC, chatA, chatB]"
proof -
  have d: "distinct (map chat_id [chatA, chatB, chatC])"
    by (simp add: chatA_def chatB_def chatC_def)
  have m: "mset [chatC, chatB, chatA] = mset [chatA, chatB, chatC]"
    by simp
  have e: "sort_stage [chatA, chatB, chatC] = [chatC, chatA, chatB]"
    by (simp add: chatA_def chatB_def chatC_def sort_before_def)
  from ordering_deterministic [OF d m] d m e show ?thesis by simp
qed





section \<open>Replaying and reordering message events\<close>

lemma findByIdAndUpdate_idem:
  assumes "\<And>c. chat_id (upd c) = chat_id c" and "\<And>c. upd (upd c) = upd c"
  shows "findByIdAndUpdate (fst (findByIdAndUpdate store cid upd)) cid upd =
         findByIdAndUpdate store cid upd"
  using assms by (induction store) (simp_all add: case_prod_beta)

text \<open>
  C7. Applying the same message event a second time changes nothing: the collection and
  the returned document are those of the first application.
\<close>

theorem update_idempotent:
  "updateConversation (fst (updateConversation store chatId msg mid txt sid ty))
     chatId msg mid txt sid ty = updateConversation store chatId msg mid txt sid ty"
  unfolding updateConversation_def Let_def
  by (rule findByIdAndUpdate_idem) simp_all

theorem update_idempotent_witness:
  "applyEvent (applyEvent [chatB, chatA] 1 freshEvent) 1 freshEvent = applyEvent [chatB, chatA] 1 freshEvent \<and>
   map lastMessageTimestamp (applyEvent [chatB, chatA] 1 freshEvent) = [None, Some 250]"
proof -
  have "map lastMessageTimestamp (applyEvent [chatB, chatA] 1 freshEvent) = [None, Some 250]"
    by (simp add: freshEvent_def updateConversation_def chatA_def chatB_def)
  with update_idempotent [of "[chatB, chatA]" 1 "\<lparr>createdAt = 250\<rparr>" 12 "''new''" 5 "''text''"]
  show ?thesis by (simp add: freshEvent_def)
qed

lemma applyEvent_found:
  assumes "findById store chatId = Some c"
  shows "\<exists>c'. findById (applyEvent store chatId e) chatId = Some c' \<and>
              lastMessageTimestamp c' = Some (createdAt (fst e))"
  using assms
  by (cases e) (simp add: updateConversation_def Let_def findById_findByIdAndUpdate)

lemma storedTimestamp_applyEvent:
  "findById store chatId = Some c \<Longrightarrow>
   storedTimestamp (applyEvent store chatId e) chatId = Some (createdAt (fst e))"
  using applyEvent_found [of store chatId c e] by (auto simp: storedTimestamp_def)

lemma observed_timestamps:
  "findById store chatId = Some c \<Longrightarrow>
   set (map (\<lambda>s. storedTimestamp s chatId) (observed store chatId es))
     \<subseteq> insert (storedTimestamp store chatId) ((\<lambda>e. Some (createdAt (fst e))) ` set es)"
proof (induction es arbitrary: store c)
  case Nil
  then show ?case by simp
next
  case (Cons e es)
  from applyEvent_found [OF Cons.prems, of e] obtain c'
    where c': "findById (applyEvent store chatId e) chatId = Some c'" by blast
  from Cons.IH [OF c'] storedTimestamp_applyEvent [OF Cons.prems, of e]
  show ?case by auto
qed

text \<open>
  C2, as the code has it. The update writes \<open>message.createdAt\<close> itself to
  \<open>lastMessageTimestamp\<close>, whatever is stored, and it always takes place. So when the events
  reach an existing conversation in creation order, none older than the stored instant,
  \<open>lastMessageTimestamp\<close> never decreases over the observed states.
\<close>

theorem timestamp_monotone_in_creation_order:
  assumes "findById store chatId = Some c"
    and "sorted_wrt (\<lambda>e e'. createdAt (fst e) \<le> createdAt (fst e')) es"
    and "\<forall>e \<in> set es. \<not> date_less (Some (createdAt (fst e))) (lastMessageTimestamp c)"
  shows "sorted_wrt (\<lambda>t t'. \<not> date_less t' t)
           (map (\<lambda>s. storedTimestamp s chatId) (observed store chatId es)) \<and>
         (\<forall>e. storedTimestamp (applyEvent store chatId e) chatId = Some (createdAt (fst e)))"
proof
  show "\<forall>e. storedTimestamp (applyEvent store chatId e) chatId = Some (createdAt (fst e))"
    using storedTimestamp_applyEvent [OF assms(1)] by blast
  show "sorted_wrt (\<lambda>t t'. \<not> date_less t' t)
           (map (\<lambda>s. storedTimestamp s chatId) (observed store chatId es))"
    using assms
  proof (induction es arbitrary: store c)
    case Nil
    then show ?case by simp
  next
    case (Cons e es)
    from applyEvent_found [OF Cons.prems(1), of e] obtain c'
      where c': "findById (applyEvent store chatId e) chatId = Some c'"
        and t': "lastMessageTimestamp c' = Some (createdAt (fst e))" by blast
    have later: "\<forall>e' \<in> set es. \<not> date_less (Some (createdAt (fst e'))) (lastMessageTimestamp c')"
      using Cons.prems(2) t' by auto
    have tail: "sorted_wrt (\<lambda>t t'. \<not> date_less t' t)
        (map (\<lambda>s. storedTimestamp s chatId) (observed (applyEvent store chatId e) chatId es))"
      using Cons.IH [OF c' _ later] Cons.prems(2) by simp
    have now: "storedTimestamp store chatId = lastMessageTimestamp c"
      using Cons.prems(1) by (simp add: storedTimestamp_def)
    have "\<not> date_less t (lastMessageTimestamp c)"
      if "t \<in> set (map (\<lambda>s. storedTimestamp s chatId) (observed (applyEvent store chatId e) chatId es))"
      for t
    proof -
      from that observed_timestamps [OF c', of es]
      have "t = storedTimestamp (applyEvent store chatId e) chatId \<or>
            t \<in> (\<lambda>e. Some (createdAt (fst e))) ` set es" by auto
      then show ?thesis
        using storedTimestamp_applyEvent [OF Cons.prems(1), of e] Cons.prems(3) by auto
    qed
    with tail now show ?case by simp
  qed
qed

theorem timestamp_monotone_in_creation_order_witness:
  "findById [chatA, chatB] 1 = Some chatA \<and>
   map (\<lambda>s. storedTimestamp s 1) (observed [chatA, chatB] 1 [freshEvent, freshEvent]) =
     [Some 100, Some 250, Some 250] \<and>
   sorted_wrt (\<lambda>t t'. \<not> date_less t' t)
     (map (\<lambda>s. storedTimestamp s 1) (observed [chatA, chatB] 1 [freshEvent, freshEvent]))"
proof -
  have h: "findById [chatA, chatB] 1 = Some chatA"
    by (simp add: chatA_def)
  have s: "sorted_wrt (\<lambda>e e'. createdAt (fst e) \<le> createdAt (fst e')) [freshEvent, freshEvent]"
    by simp
  have b: "\<forall>e \<in> set [freshEvent, freshEvent].
      \<not> date_less (Some (createdAt (fst e))) (lastMessageTimestamp chatA)"
    by (simp add: freshEvent_def chatA_def)
  have v: "map (\<lambda>s. storedTimestamp s 1) (observed [chatA, chatB] 1 [freshEvent, freshEvent]) =
     [Some 100, Some 250, Some 250]"
    by (simp add: freshEvent_def chatA_def chatB_def storedTimestamp_def updateConversation_def)
  from timestamp_monotone_in_creation_order [OF h s b] h v show ?thesis
    by simp
qed

text \<open>
  A message older than the stored instant moves \<open>lastMessageTimestamp\<close> back: the value
  written is not the maximum of the stored instant and \<open>createdAt\<close>.
\<close>

theorem stale_message_moves_timestamp_back:
  "storedTimestamp [chatA] 1 = Some 100 \<and>
   storedTimestamp (applyEvent [chatA] 1 staleEvent) 1 = Some 50 \<and>
   date_less (storedTimestamp (applyEvent [chatA] 1 staleEvent) 1) (storedTimestamp [chatA] 1) \<and>
   storedTimestamp (applyEvent [chatA] 1 staleEvent) 1 \<noteq> Some (max 100 (createdAt (fst staleEvent)))"
  by (simp add: staleEvent_def chatA_def storedTimestamp_def updateConversation_def)

section \<open>Facts about the pre-save middleware\<close>

text \<open>
  C4, as the code has it. A save that modifies \<open>lastMessageTimestamp\<close>, alone or with other
  fields, passes the hook unchanged. A save of a modified, already stored document that
  does not modify \<open>lastMessageTimestamp\<close> gets \<open>updatedAt = now\<close> and no other change. A new
  document and an unmodified one pass unchanged.
\<close>

theorem guard_defers_or_stamps:
  "(isModifiedPath d LastMessageTimestamp \<longrightarrow> preSave now d = d) \<and>
   (\<not> isModifiedPath d LastMessageTimestamp \<and> isModified d \<and> \<not> isNew d \<longrightarrow>
      updatedAt (doc (preSave now d)) = Some now \<and>
      (doc (preSave now d))\<lparr>updatedAt := updatedAt (doc d)\<rparr> = doc d) \<and>
   (isNew d \<or> \<not> isModified d \<longrightarrow> preSave now d = d)"
  by (simp add: preSave_def)

theorem guard_defers_or_stamps_witness:
  "isModifiedPath messageDoc LastMessageTimestamp \<and> preSave 900 messageDoc = messageDoc \<and>
   \<not> isModifiedPath renameDoc LastMessageTimestamp \<and> isModified renameDoc \<and> \<not> isNew renameDoc \<and>
   updatedAt (doc (preSave 900 renameDoc)) = Some 900 \<and>
   isNew createdDoc \<and> preSave 900 createdDoc = createdDoc"
proof -
  have m: "isModifiedPath messageDoc LastMessageTimestamp"
    by (simp add: messageDoc_def isModifiedPath_def)
  have r: "\<not> isModifiedPath renameDoc LastMessageTimestamp \<and> isModified renameDoc \<and> \<not> isNew renameDoc"
    by (simp add: renameDoc_def isModifiedPath_def isModified_def)
  have n: "isNew createdDoc"
    by (simp add: createdDoc_def)
  from guard_defers_or_stamps [of messageDoc 900] guard_defers_or_stamps [of renameDoc 900]
    guard_defers_or_stamps [of createdDoc 900] m r n
  show ?thesis by simp
qed

text \<open>
  The first save of a conversation does not modify \<open>lastMessageTimestamp\<close>, and the hook
  does not assign \<open>now\<close> to its \<open>updatedAt\<close>.
\<close>

theorem guard_skips_new_document:
  "\<not> isModifiedPath createdDoc LastMessageTimestamp \<and>
   updatedAt (doc (preSave 900 createdDoc)) \<noteq> Some 900"
  by (simp add: createdDoc_def chatB_def isModifiedPath_def preSave_def)

lemma write_path_chat_id: "chat_id (write_path src p c) = chat_id c"
  by (cases p) simp_all

lemma fold_write_path_chat_id: "chat_id (fold (write_path src) ps c) = chat_id c"
  by (induction ps arbitrary: c) (simp_all add: write_path_chat_id)

lemma fold_write_path_timestamp:
  "lastMessageTimestamp (fold (write_path src) ps c) =
   (if LastMessageTimestamp \<in> set ps then lastMessageTimestamp src else lastMessageTimestamp c)"
proof (induction ps arbitrary: c)
  case Nil
  then show ?case by simp
next
  case (Cons p ps)
  then show ?case by (cases p) simp_all
qed

lemma fold_write_path_updatedAt:
  "updatedAt (fold (write_path src) ps c) =
   (if UpdatedAt \<in> set ps then updatedAt src else updatedAt c)"
proof (induction ps arbitrary: c)
  case Nil
  then show ?case by simp
next
  case (Cons p ps)
  then show ?case by (cases p) simp_all
qed

lemma findByIdAndUpdate_same_keys:
  assumes "\<And>c. chat_id (upd c) = chat_id c"
    and "\<And>c. lastMessageTimestamp (upd c) = lastMessageTimestamp c"
  shows "list_all2 (\<lambda>a b. lastMessageTimestamp a = lastMessageTimestamp b \<and> chat_id a = chat_id b)
           store (fst (findByIdAndUpdate store cid upd))"
  using assms by (induction store) (simp_all add: case_prod_beta list.rel_refl)

lemma same_keys_same_listing:
  assumes "list_all2 (\<lambda>a b. lastMessageTimestamp a = lastMessageTimestamp b \<and> chat_id a = chat_id b) xs ys"
  shows "map chat_id (sort_stage xs) = map chat_id (sort_stage ys) \<and>
         map lastMessageTimestamp xs = map lastMessageTimestamp ys"
proof -
  let ?R = "\<lambda>a b. lastMessageTimestamp a = lastMessageTimestamp b \<and> chat_id a = chat_id b"
  have "list_all2 ?R (sort_stage xs) (sort_stage ys)"
  proof (rule sort_stage_rel [where R = ?R])
    show "sort_before a a' = sort_before b b'" if "?R a b" "?R a' b'" for a b a' b'
      using that by (simp add: sort_before_def)
    show "list_all2 ?R xs ys" by fact
  qed
  then have "map chat_id (sort_stage xs) = map chat_id (sort_stage ys)"
    by (rule list_all2_map_eq) simp
  moreover have "map lastMessageTimestamp xs = map lastMessageTimestamp ys"
    using assms by (rule list_all2_map_eq) simp
  ultimately show ?thesis ..
qed

text \<open>
  C8. Saving an already stored conversation with some modification that is not to
  \<open>lastMessageTimestamp\<close> (a rename) sets its \<open>updatedAt\<close> to \<open>now\<close>, leaves every stored
  \<open>lastMessageTimestamp\<close> as it was, and leaves the listing in the same order.
\<close>

theorem rename_keeps_position:
  assumes "isModified d" and "\<not> isNew d" and "\<not> isModifiedPath d LastMessageTimestamp"
    and "findById store (chat_id (doc d)) = Some c"
  shows "(\<exists>c'. findById (save now store d) (chat_id (doc d)) = Some c' \<and>
               updatedAt c' = Some now \<and> lastMessageTimestamp c' = lastMessageTimestamp c) \<and>
         map lastMessageTimestamp (save now store d) = map lastMessageTimestamp store \<and>
         map chat_id (sort_stage (save now store d)) = map chat_id (sort_stage store)"
proof -
  let ?d = "preSave now d"
  have d': "?d = d\<lparr>doc := (doc d)\<lparr>updatedAt := Some now\<rparr>, modifiedPaths := UpdatedAt # modifiedPaths d\<rparr>"
    using assms(1-3) by (simp add: preSave_def)
  have id: "chat_id (write_paths ?d x) = chat_id x" for x
    by (simp add: write_paths_def fold_write_path_chat_id)
  have ts: "lastMessageTimestamp (write_paths ?d x) = lastMessageTimestamp x" for x
    using assms(3) unfolding write_paths_def fold_write_path_timestamp
    by (simp add: d' isModifiedPath_def)
  have up: "updatedAt (write_paths ?d x) = Some now" for x
    unfolding write_paths_def fold_write_path_updatedAt by (simp add: d')
  have sv: "save now store d = fst (findByIdAndUpdate store (chat_id (doc d)) (write_paths ?d))"
    using assms(2) by (simp add: save_def Let_def d')
  have "findById (save now store d) (chat_id (doc d)) = Some (write_paths ?d c)"
    using assms(4) unfolding sv by (simp add: findById_findByIdAndUpdate [of "write_paths ?d", OF id])
  then have one: "\<exists>c'. findById (save now store d) (chat_id (doc d)) = Some c' \<and>
               updatedAt c' = Some now \<and> lastMessageTimestamp c' = lastMessageTimestamp c"
    using up ts by simp
  have "list_all2 (\<lambda>a b. lastMessageTimestamp a = lastMessageTimestamp b \<and> chat_id a = chat_id b)
          store (save now store d)"
    unfolding sv by (rule findByIdAndUpdate_same_keys) (simp_all add: id ts)
  from same_keys_same_listing [OF this] one show ?thesis by simp
qed

theorem rename_keeps_position_witness:
  "isModified renameDoc \<and> \<not> isNew renameDoc \<and> \<not> isModifiedPath renameDoc LastMessageTimestamp \<and>
   findById [chatA, chatB, chatC] (chat_id (doc renameDoc)) = Some chatA \<and>
   map updatedAt (save 900 [chatA, chatB, chatC] renameDoc) = [Some 900, Some 500, Some 100] \<and>
   map name (save 900 [chatA, chatB, chatC] renameDoc) = [''A2'', ''B'', ''C''] \<and>
   map chat_id (sort_stage (save 900 [chatA, chatB, chatC] renameDoc)) =
     map chat_id (sort_stage [chatA, chatB, chatC])"
proof -
  have h: "isModified renameDoc" "\<not> isNew renameDoc" "\<not> isModifiedPath renameDoc LastMessageTimestamp"
    by (simp_all add: renameDoc_def isModified_def isModifiedPath_def)
  have f: "findById [chatA, chatB, chatC] (chat_id (doc renameDoc)) = Some chatA"
    by (simp add: renameDoc_def chatA_def)
  have v: "map updatedAt (save 900 [chatA, chatB, chatC] renameDoc) = [Some 900, Some 500, Some 100] \<and>
     map name (save 900 [chatA, chatB, chatC] renameDoc) = [''A2'', ''B'', ''C'']"
    by (simp add: save_def preSave_def write_paths_def renameDoc_def isModified_def isModifiedPath_def
        chatA_def chatB_def chatC_def)
  from rename_keeps_position [OF h f, of 900] h f v show ?thesis
    by simp
qed

text \<open>
  C10. The hook changes a document only when it is modified and not new; the first save
  of a document whose \<^verbatim>\<open>_id\<close> is not yet stored stores it as written (and a refused insert
  stores nothing); and the update on a new message, which does not run the hook, stores
  and returns the document with exactly the six values of the update object, \<open>updatedAt\<close>
  being \<open>message.createdAt\<close>.
\<close>

theorem guard_only_on_modified_saved_documents:
  "(preSave now d \<noteq> d \<longrightarrow> isModified d \<and> \<not> isNew d) \<and>
   (isNew d \<longrightarrow>
      save now store d =
        (if findById store (chat_id (doc d)) = None then store @ [doc d] else store)) \<and>
   (findById store chatId = Some c \<longrightarrow>
      snd (updateConversation store chatId msg mid txt sid ty) =
        Some (c\<lparr>lastMessage := Some mid, lastMessageText := Some txt,
                lastMessageTimestamp := Some (createdAt msg), lastMessageSender := Some sid,
                lastMessageType := Some ty, updatedAt := Some (createdAt msg)\<rparr>) \<and>
      findById (fst (updateConversation store chatId msg mid txt sid ty)) chatId =
        snd (updateConversation store chatId msg mid txt sid ty))"
  by (auto simp: preSave_def save_def Let_def updateConversation_def snd_findByIdAndUpdate
      findById_findByIdAndUpdate split: option.splits)

theorem guard_only_on_modified_saved_documents_witness:
  "isNew createdDoc \<and> findById [chatA] (chat_id (doc createdDoc)) = None \<and>
   save 900 [chatA] createdDoc = [chatA, chatB] \<and>
   save 900 [chatA, chatB] createdDoc = [chatA, chatB] \<and>
   findById [chatA, chatB] 2 = Some chatB \<and>
   map_option updatedAt (snd (updateConversation [chatA, chatB] 2 \<lparr>createdAt = 250\<rparr> 11 ''hey'' 5 ''text''))
     = Some (Some 250)"
proof -
  have n: "isNew createdDoc" "doc createdDoc = chatB"
    by (simp_all add: createdDoc_def)
  have f: "findById [chatA, chatB] 2 = Some chatB"
    by (simp add: chatA_def chatB_def)
  have g: "findById [chatA] (chat_id (doc createdDoc)) = None"
    by (simp add: createdDoc_def chatA_def chatB_def)
  have k: "findById [chatA, chatB] (chat_id (doc createdDoc)) = Some chatB"
    by (simp add: createdDoc_def chatA_def chatB_def)
  from guard_only_on_modified_saved_documents [of 900 createdDoc "[chatA]" 2 chatB]
    guard_only_on_modified_saved_documents
      [of 900 createdDoc "[chatA, chatB]" 2 chatB "\<lparr>createdAt = 250\<rparr>" 11 "''hey''" 5 "''text''"]
    n f g k
  show ?thesis by simp
qed

end
